theory Spec2Isabelle
  imports Main "HOL-Library.Sublist"
begin

section \<open>The collaborators of the crawler\<close>

text \<open>
  \<^verbatim>\<open>crawler.ts\<close> calls three libraries: Node's \<^verbatim>\<open>url.parse\<close>, \<^verbatim>\<open>axios.get\<close> and
  \<^verbatim>\<open>cheerio\<close>. None of them is part of the repository, so each is a parameter of the
  model, and every theorem below holds whatever they answer, unless it says what it
  needs of them.

  \<^verbatim>\<open>url.parse(path)\<close> returns an object of which the crawler reads four fields, each a
  string or \<^verbatim>\<open>null\<close> (\<open>None\<close>).
\<close>

record url_info =
  hostname :: "string option"
  protocol :: "string option"
  port :: "string option"
  pathname :: "string option"

text \<open>
  The value of \<^verbatim>\<open>+response.headers['content-length']\<close>: \<open>NaN\<close> when the header is absent
  or not numeric; \<open>Number x\<close> when the double that the unary plus yields is the integer \<open>x\<close>.
  Doubles that are not integers are left out.
\<close>

datatype js_number = NaN | Number int

text \<open>
  \<^verbatim>\<open>response.data\<close> as \<^verbatim>\<open>axios\<close> hands it over, decoded, which need not be the body as it
  was sent: a string, given as the list of its UTF-8 bytes, so that
  \<^verbatim>\<open>Buffer.byteLength(content, 'utf8')\<close> is its length; or the value into which \<^verbatim>\<open>axios\<close> has
  parsed a JSON body, which is not a string. On such a value \<^verbatim>\<open>cheerio.load\<close> and
  \<^verbatim>\<open>Buffer.byteLength\<close> throw a \<^verbatim>\<open>TypeError\<close>.
\<close>

datatype js_data = Str string | Parsed

text \<open>
  What \<^verbatim>\<open>fetchPageContent\<close> returns: the response of \<^verbatim>\<open>axios.get\<close>, or the error that
  \<^verbatim>\<open>.catch( (err) => { return err; })\<close> turns into a value.
\<close>

record axios_response =
  status :: int
  content_length :: js_number
  data :: js_data

datatype fetch_result = Failed | Response axios_response

text \<open>
  \<open>cheerio_attr lib content selector attribute\<close> lists, in document order, what
  \<^verbatim>\<open>cheerioInstance( selectors[j] ).attr( resource.attribute )\<close> gives for the elements
  that \<^verbatim>\<open>cheerioInstance( resource.selector )\<close> matches in \<^verbatim>\<open>cheerio.load(content)\<close>:
  \<open>None\<close> is \<^verbatim>\<open>undefined\<close>, an element without the attribute.
\<close>

record libs =
  url_parse :: "string \<Rightarrow> url_info"
  axios_get :: "string \<Rightarrow> fetch_result"
  cheerio_attr :: "string \<Rightarrow> string \<Rightarrow> string \<Rightarrow> string option list"

section \<open>The class \<^verbatim>\<open>Crawler\<close>\<close>

record CrawlerResources =
  selector :: string
  attribute :: string

record CrawlerOptions =
  maxDepth :: int
  includeAssets :: bool

record CrawlerDownloadInfo =
  resource :: string
  size_bytes :: int

definition LINK_RESOURCE :: CrawlerResources where
  "LINK_RESOURCE = \<lparr>selector = ''a'', attribute = ''href''\<rparr>"

definition ASSET_RESOURCES :: "CrawlerResources list" where
  "ASSET_RESOURCES =
     [\<lparr>selector = ''img'', attribute = ''src''\<rparr>,
      \<lparr>selector = ''script'', attribute = ''src''\<rparr>,
      \<lparr>selector = ''link[rel=\"stylesheet\"]'', attribute = ''href''\<rparr>]"

definition DEFAULT_OPTIONS :: CrawlerOptions where
  "DEFAULT_OPTIONS = \<lparr>maxDepth = 10, includeAssets = False\<rparr>"

text \<open>The fields the constructor sets and nothing changes afterwards.\<close>

record crawler =
  URL :: string
  HOSTNAME :: string
  PROTOCOL :: "string option"
  PORT :: "string option"
  CRAWLER_OPTIONS :: CrawlerOptions

text \<open>
  The fields that \<^verbatim>\<open>run\<close> changes. \<open>fetched\<close> is not a field of the class: it lists the
  arguments of the calls of \<^verbatim>\<open>fetchPageContent\<close>, oldest first, so that the theorems can
  speak of the requests the crawler sends.
\<close>

record crawl_state =
  currentDepth :: int
  scannedHosts :: "string list"
  scannedResourceInfo :: "CrawlerDownloadInfo list"
  fetched :: "string list"

definition new_state :: crawl_state where
  "new_state = \<lparr>currentDepth = 0, scannedHosts = [], scannedResourceInfo = [], fetched = []\<rparr>"

datatype error = InvalidURL

text \<open>
  The constructor: \<^verbatim>\<open>throw Error('Specified URL is invalid.')\<close> when the parsed host name
  is \<^verbatim>\<open>null\<close>; the options, when given, replace the defaults.
\<close>

definition new_Crawler :: "libs \<Rightarrow> string \<Rightarrow> CrawlerOptions option \<Rightarrow> error + crawler" where
  "new_Crawler lib path options =
     (let pathInfo = url_parse lib path in
      case hostname pathInfo of
        None \<Rightarrow> Inl InvalidURL
      | Some h \<Rightarrow>
          Inr \<lparr>URL = path, HOSTNAME = h, PROTOCOL = protocol pathInfo, PORT = port pathInfo,
               CRAWLER_OPTIONS = (case options of None \<Rightarrow> DEFAULT_OPTIONS | Some opts \<Rightarrow> opts)\<rparr>)"

subsection \<open>\<^verbatim>\<open>cleanURL\<close>\<close>

text \<open>
  JavaScript reads a string or \<^verbatim>\<open>null\<close>/\<^verbatim>\<open>undefined\<close> as a condition (\<open>truthy\<close>: it is a
  non-empty string) and prints it inside a template literal (\<open>template\<close>: \<^verbatim>\<open>null\<close> prints
  as the four letters \<^verbatim>\<open>null\<close>).
\<close>

fun truthy :: "string option \<Rightarrow> bool" where
  "truthy None = False"
| "truthy (Some s) = (s \<noteq> [])"

fun template :: "string option \<Rightarrow> string" where
  "template None = ''null''"
| "template (Some s) = s"

fun or_empty :: "string option \<Rightarrow> string" where
  "or_empty None = []"
| "or_empty (Some s) = s"

definition cleanURL :: "libs \<Rightarrow> crawler \<Rightarrow> string option \<Rightarrow> string option" where
  "cleanURL lib c path =
     (case path of
        None \<Rightarrow> None
      | Some p \<Rightarrow>
          if p = [] then None
          else
            let pathInfo = url_parse lib p;
                own = truthy (hostname pathInfo);
                hostname' = (if own then or_empty (hostname pathInfo) else HOSTNAME c);
                protocol' = (if own then protocol pathInfo else PROTOCOL c);
                port' = (if own then port pathInfo else PORT c)
            in Some (template protocol' @ ''//'' @ hostname'
                     @ (if truthy port' then or_empty port' else [])
                     @ (if truthy (pathname pathInfo) \<and> pathname pathInfo \<noteq> Some ''/''
                        then or_empty (pathname pathInfo) else [])))"

subsection \<open>\<^verbatim>\<open>isSuccessResponse\<close> and the size of a download\<close>

fun isSuccessResponse :: "fetch_result \<Rightarrow> bool" where
  "isSuccessResponse Failed = False"
| "isSuccessResponse (Response r) = (200 \<le> status r \<and> status r < 300)"

text \<open>
  \<^verbatim>\<open>+response.headers['content-length'] || Buffer.byteLength(content, 'utf8') || 0\<close>:
  \<^verbatim>\<open>||\<close> gives its left operand unless that is \<^verbatim>\<open>NaN\<close> or \<^verbatim>\<open>0\<close>, and evaluates its
  right operand only then. \<open>None\<close> is the \<^verbatim>\<open>TypeError\<close> of \<^verbatim>\<open>Buffer.byteLength\<close>.
\<close>

fun byteLength :: "js_data \<Rightarrow> int option" where
  "byteLength (Str s) = Some (int (length s))"
| "byteLength Parsed = None"

fun js_or :: "js_number \<Rightarrow> int option \<Rightarrow> int option" where
  "js_or NaN y = y"
| "js_or (Number x) y = (if x = 0 then y else Some x)"

definition download_size :: "axios_response \<Rightarrow> int option" where
  "download_size r =
     js_or (content_length r)
       (case byteLength (data r) of
          None \<Rightarrow> None
        | Some b \<Rightarrow> js_or (Number b) (Some 0))"

subsection \<open>\<^verbatim>\<open>scanPage\<close> and \<^verbatim>\<open>readResourceContent\<close>\<close>

text \<open>
  \<^verbatim>\<open>fetchPageContent\<close>: the request is sent, which the list \<open>fetched\<close> notes where
  \<^verbatim>\<open>axios.get\<close> is called, and the response or the error is returned.
\<close>

definition fetchPageContent :: "libs \<Rightarrow> string \<Rightarrow> crawl_state \<Rightarrow> fetch_result \<times> crawl_state" where
  "fetchPageContent lib url st = (axios_get lib url, st\<lparr>fetched := fetched st @ [url]\<rparr>)"

text \<open>
  Lines 188 to 193 of \<^verbatim>\<open>readResourceContent\<close>: the host is pushed on \<^verbatim>\<open>scannedHosts\<close>, and
  the depth is incremented when \<^verbatim>\<open>incrDepth === true\<close>.
\<close>

definition visit :: "string \<Rightarrow> bool \<Rightarrow> crawl_state \<Rightarrow> crawl_state" where
  "visit currentHost incrDepth st =
     st\<lparr>scannedHosts := scannedHosts st @ [currentHost],
        currentDepth := (if incrDepth then currentDepth st + 1 else currentDepth st)\<rparr>"

text \<open>Lines 204 to 207: the record of a successful download, once its size is computed.\<close>

definition record_download :: "string \<Rightarrow> int \<Rightarrow> crawl_state \<Rightarrow> crawl_state" where
  "record_download currentHost size_of_download st =
     st\<lparr>scannedResourceInfo :=
          scannedResourceInfo st @ [\<lparr>resource = currentHost, size_bytes = size_of_download\<rparr>]\<rparr>"

text \<open>
  A crawl need not end: the pages may link to new pages for ever, when assets are followed
  or \<^verbatim>\<open>maxDepth\<close> is never met. The functions therefore take a budget, the number of
  nested calls of \<^verbatim>\<open>scanPage\<close> they may make. \<open>Returned st\<close>: the call returned, leaving the
  fields as \<open>st\<close>. \<open>Thrown st\<close>: an exception was thrown with the fields as \<open>st\<close>; nothing
  catches it, so every pending call is given up and the promise of \<^verbatim>\<open>scanPage\<close> is rejected.
  \<open>Running st\<close>: the budget ran out at a call of \<^verbatim>\<open>scanPage\<close> that the crawler entered with
  the fields as \<open>st\<close>; the crawl is still going on there.
\<close>

datatype progress = Running crawl_state | Thrown crawl_state | Returned crawl_state

fun state_of :: "progress \<Rightarrow> crawl_state" where
  "state_of (Running st) = st"
| "state_of (Thrown st) = st"
| "state_of (Returned st) = st"

text \<open>
  What the loop over \<^verbatim>\<open>j\<close> decides for one attribute value before anything is changed
  (lines 179 to 187): \<^verbatim>\<open>break\<close> at the depth gate, \<^verbatim>\<open>continue\<close> for the path \<^verbatim>\<open>"/"\<close>, for
  a path with no clean URL and for a host already scanned, or go on with the new host.
\<close>

datatype candidate = Break | Continue | Fetch string

definition candidate :: "libs \<Rightarrow> crawler \<Rightarrow> string option \<Rightarrow> crawl_state \<Rightarrow> candidate" where
  "candidate lib c path st =
     (if currentDepth st = maxDepth (CRAWLER_OPTIONS c) then Break
      else if path = Some ''/'' then Continue
      else
        case cleanURL lib c path of
          None \<Rightarrow> Continue
        | Some currentHost \<Rightarrow>
            if currentHost \<noteq> [] \<and> currentHost \<notin> set (scannedHosts st) then Fetch currentHost
            else Continue)"

text \<open>
  Lines 188 to 209, for a new host: the visit, the request, the record of a successful
  download, and what the loop does next. \<open>Scan content\<close>: the test of line 209 lets the
  crawler scan the content. \<open>Skip\<close>: it does not, or the request did not succeed. \<open>Throw\<close>:
  the size could not be computed, and line 204 pushed no record.
\<close>

datatype after_fetch = Skip | Scan js_data | Throw

definition download ::
  "libs \<Rightarrow> crawler \<Rightarrow> string \<Rightarrow> bool \<Rightarrow> crawl_state \<Rightarrow> crawl_state \<times> after_fetch" where
  "download lib c currentHost incrDepth st =
     (let (response, st1) = fetchPageContent lib currentHost (visit currentHost incrDepth st) in
      case response of
        Failed \<Rightarrow> (st1, Skip)
      | Response r \<Rightarrow>
          if isSuccessResponse (Response r) then
            (case download_size r of
               None \<Rightarrow> (st1, Throw)
             | Some size_of_download \<Rightarrow>
                 (let st2 = record_download currentHost size_of_download st1 in
                  if currentDepth st2 = 0 \<or> currentDepth st2 \<le> maxDepth (CRAWLER_OPTIONS c)
                  then (st2, Scan (data r)) else (st2, Skip)))
          else (st1, Skip))"

text \<open>
  \<open>readResourceContent\<close> begins with \<^verbatim>\<open>cheerio.load(content)\<close> (line 168), which throws when
  the content is not a string. \<open>resource_loop\<close> is the loop over \<^verbatim>\<open>i\<close> on the resources still
  to be looked up, and \<open>selector_loop\<close> the loop over \<^verbatim>\<open>j\<close> (lines 176 to 214) on the
  attribute values still to be read. \<open>scanPage (Suc n)\<close> gives the budget \<open>n\<close> to what it
  calls.
\<close>

function (sequential)
  scanPage :: "nat \<Rightarrow> libs \<Rightarrow> crawler \<Rightarrow> js_data \<Rightarrow> crawl_state \<Rightarrow> progress"
and readResourceContent ::
      "nat \<Rightarrow> libs \<Rightarrow> crawler \<Rightarrow> js_data \<Rightarrow> CrawlerResources list \<Rightarrow> bool \<Rightarrow> crawl_state \<Rightarrow> progress"
and resource_loop ::
      "nat \<Rightarrow> libs \<Rightarrow> crawler \<Rightarrow> string \<Rightarrow> CrawlerResources list \<Rightarrow> bool \<Rightarrow> crawl_state \<Rightarrow> progress"
and selector_loop ::
      "nat \<Rightarrow> libs \<Rightarrow> crawler \<Rightarrow> bool \<Rightarrow> string option list \<Rightarrow> crawl_state \<Rightarrow> progress"
where
  "scanPage 0 lib c content st = Running st"
| "scanPage (Suc n) lib c content st =
     (if includeAssets (CRAWLER_OPTIONS c) then
        (case readResourceContent n lib c content ASSET_RESOURCES False st of
           Returned st' \<Rightarrow> readResourceContent n lib c content [LINK_RESOURCE] True st'
         | stopped \<Rightarrow> stopped)
      else readResourceContent n lib c content [LINK_RESOURCE] True st)"
| "readResourceContent n lib c Parsed resources incrDepth st = Thrown st"
| "readResourceContent n lib c (Str html) resources incrDepth st =
     resource_loop n lib c html resources incrDepth st"
| "resource_loop n lib c html [] incrDepth st = Returned st"
| "resource_loop n lib c html (r # resources) incrDepth st =
     (case selector_loop n lib c incrDepth
             (cheerio_attr lib html (selector r) (attribute r)) st of
        Returned st' \<Rightarrow> resource_loop n lib c html resources incrDepth st'
      | stopped \<Rightarrow> stopped)"
| "selector_loop n lib c incrDepth [] st = Returned st"
| "selector_loop n lib c incrDepth (path # paths) st =
     (case candidate lib c path st of
        Break \<Rightarrow> Returned st
      | Continue \<Rightarrow> selector_loop n lib c incrDepth paths st
      | Fetch currentHost \<Rightarrow>
          (case download lib c currentHost incrDepth st of
             (st', Throw) \<Rightarrow> Thrown st'
           | (st', Skip) \<Rightarrow> selector_loop n lib c incrDepth paths st'
           | (st', Scan content) \<Rightarrow>
               (case scanPage n lib c content st' of
                  Returned st'' \<Rightarrow> selector_loop n lib c incrDepth paths st''
                | stopped \<Rightarrow> stopped)))"
  by pat_completeness auto

termination
  by (relation "measures
        [\<lambda>x. case x of Inl (Inl (n, _)) \<Rightarrow> n | Inl (Inr (n, _)) \<Rightarrow> n
                      | Inr (Inl (n, _)) \<Rightarrow> n | Inr (Inr (n, _)) \<Rightarrow> n,
         \<lambda>x. case x of Inl (Inl _) \<Rightarrow> 0 | Inl (Inr _) \<Rightarrow> 3
                      | Inr (Inl _) \<Rightarrow> 2 | Inr (Inr _) \<Rightarrow> 1,
         \<lambda>x. case x of Inl _ \<Rightarrow> 0
                      | Inr (Inl (_, _, _, _, rs, _)) \<Rightarrow> length rs
                      | Inr (Inr (_, _, _, _, ps, _)) \<Rightarrow> length ps]") auto

subsection \<open>\<^verbatim>\<open>run\<close>\<close>

text \<open>
  \<^verbatim>\<open>run\<close> returns a promise. \<^verbatim>\<open>resolve\<close> is called at one place only, after \<^verbatim>\<open>scanPage\<close>
  has returned; a promise that is \<open>Pending\<close> whatever the budget is never resolved. That is
  so after an exception too: \<^verbatim>\<open>run\<close> has no handler for a rejected \<^verbatim>\<open>scanPage\<close>.
\<close>

datatype promise = Pending | Resolved "CrawlerDownloadInfo list"

definition run :: "nat \<Rightarrow> libs \<Rightarrow> crawler \<Rightarrow> crawl_state \<Rightarrow> promise \<times> crawl_state" where
  "run n lib c st =
     (let (response, st0) = fetchPageContent lib (URL c) st in
      case response of
        Failed \<Rightarrow> (Pending, st0)
      | Response r \<Rightarrow>
          if isSuccessResponse (Response r) then
            (case scanPage n lib c (data r) st0 of
               Returned st' \<Rightarrow> (Resolved (scannedResourceInfo st'), st')
             | stopped \<Rightarrow> (Pending, state_of stopped))
          else (Pending, st0))"

section \<open>A site to run the crawler on\<close>

text \<open>
  The closed examples below run the crawler on one small site. \<open>node_parse\<close> gives the
  answers of Node's \<^verbatim>\<open>url.parse\<close> on the strings the examples pass to it: a string
  without scheme, host, query and fragment is a path and nothing else; an \<^verbatim>\<open>http\<close>
  URL without a path, or with the path \<^verbatim>\<open>/\<close>, has the path name \<^verbatim>\<open>/\<close>; a host name is
  put in lower case. The page \<^verbatim>\<open>/api\<close> answers with a JSON body and no \<^verbatim>\<open>Content-Length\<close>,
  which \<^verbatim>\<open>axios\<close> hands over parsed.
\<close>

definition path_only :: "string \<Rightarrow> url_info" where
  "path_only p = \<lparr>hostname = None, protocol = None, port = None, pathname = Some p\<rparr>"

definition http_host :: "string \<Rightarrow> url_info" where
  "http_host h = \<lparr>hostname = Some h, protocol = Some ''http:'', port = None, pathname = Some ''/''\<rparr>"

definition node_parse :: "string \<Rightarrow> url_info" where
  "node_parse u =
     (if u = ''http://a.test'' \<or> u = ''http://a.test/'' then http_host ''a.test''
      else if u = ''http://h.com'' \<or> u = ''http://h.com/'' then http_host ''h.com''
      else if u = ''http://a.testAbout.html'' then http_host ''a.testabout.html''
      else path_only u)"

definition seed_page :: string where
  "seed_page = ''<img src=/logo.png><a href=/x><a href=/x><a href=/><a href=http://a.test/><a href=/gone>''"

definition list_page :: string where
  "list_page = ''<a href=/api><a href=/x>''"

definition example_attr :: "string \<Rightarrow> string \<Rightarrow> string \<Rightarrow> string option list" where
  "example_attr html sel attr =
     (if html = seed_page \<and> sel = ''img'' \<and> attr = ''src'' then [Some ''/logo.png'']
      else if html = seed_page \<and> sel = ''a'' \<and> attr = ''href''
        then [Some ''/x'', Some ''/x'', Some ''/'', Some ''http://a.test/'', Some ''/gone'']
      else if html = list_page \<and> sel = ''a'' \<and> attr = ''href''
        then [Some ''/api'', Some ''/x'']
      else [])"

definition example_get :: "string \<Rightarrow> fetch_result" where
  "example_get u =
     (if u = ''http://a.test''
        then Response \<lparr>status = 200, content_length = NaN, data = Str seed_page\<rparr>
      else if u = ''http://a.test/logo.png''
        then Response \<lparr>status = 200, content_length = Number 1024, data = Str ''PNG''\<rparr>
      else if u = ''http://a.test/x''
        then Response \<lparr>status = 200, content_length = NaN, data = Str ''abc''\<rparr>
      else if u = ''http://a.test/gone''
        then Response \<lparr>status = 404, content_length = NaN, data = Str []\<rparr>
      else if u = ''http://a.test/list''
        then Response \<lparr>status = 200, content_length = NaN, data = Str list_page\<rparr>
      else if u = ''http://a.test/api''
        then Response \<lparr>status = 200, content_length = NaN, data = Parsed\<rparr>
      else Failed)"

definition example_lib :: libs where
  "example_lib = \<lparr>url_parse = node_parse, axios_get = example_get, cheerio_attr = example_attr\<rparr>"

definition example_crawler :: "int \<Rightarrow> bool \<Rightarrow> crawler" where
  "example_crawler depth assets =
     \<lparr>URL = ''http://a.test'', HOSTNAME = ''a.test'', PROTOCOL = Some ''http:'', PORT = None,
      CRAWLER_OPTIONS = \<lparr>maxDepth = depth, includeAssets = assets\<rparr>\<rparr>"

text \<open>
  A crawler whose seed is the page \<^verbatim>\<open>/list\<close>, which links to \<^verbatim>\<open>/api\<close>, and a crawler whose
  seed does not answer.
\<close>

definition list_crawler :: crawler where
  "list_crawler =
     \<lparr>URL = ''http://a.test/list'', HOSTNAME = ''a.test'', PROTOCOL = Some ''http:'', PORT = None,
      CRAWLER_OPTIONS = DEFAULT_OPTIONS\<rparr>"

definition down_crawler :: crawler where
  "down_crawler =
     \<lparr>URL = ''http://down.test'', HOSTNAME = ''down.test'', PROTOCOL = Some ''http:'', PORT = None,
      CRAWLER_OPTIONS = DEFAULT_OPTIONS\<rparr>"

section \<open>How the fields grow\<close>

text \<open>
  \<open>grows st st'\<close>: from \<open>st\<close> to \<open>st'\<close> hosts were pushed that were not scanned before, each
  once; the requests sent are for these hosts, in the same order; the downloads recorded
  are of some of these hosts, each once; the depth did not go down.
\<close>

definition grows :: "crawl_state \<Rightarrow> crawl_state \<Rightarrow> bool" where
  "grows st st' \<longleftrightarrow>
     (\<exists>zs rs. scannedHosts st' = scannedHosts st @ zs \<and> fetched st' = fetched st @ zs \<and>
        scannedResourceInfo st' = scannedResourceInfo st @ rs \<and>
        distinct zs \<and> set zs \<inter> set (scannedHosts st) = {} \<and>
        distinct (map resource rs) \<and> set (map resource rs) \<subseteq> set zs \<and>
        currentDepth st \<le> currentDepth st')"

section \<open>What every call leaves behind\<close>

lemma grows_refl: "grows st st"
  by (simp add: grows_def)

lemma grows_trans:
  assumes "grows a b" and "grows b d"
  shows "grows a d"
proof -
  from assms(1) obtain zs rs where ab:
    "scannedHosts b = scannedHosts a @ zs" "fetched b = fetched a @ zs"
    "scannedResourceInfo b = scannedResourceInfo a @ rs"
    "distinct zs" "set zs \<inter> set (scannedHosts a) = {}"
    "distinct (map resource rs)" "set (map resource rs) \<subseteq> set zs"
    "currentDepth a \<le> currentDepth b"
    unfolding grows_def by blast
  from assms(2) obtain zs' rs' where bd:
    "scannedHosts d = scannedHosts b @ zs'" "fetched d = fetched b @ zs'"
    "scannedResourceInfo d = scannedResourceInfo b @ rs'"
    "distinct zs'" "set zs' \<inter> set (scannedHosts b) = {}"
    "distinct (map resource rs')" "set (map resource rs') \<subseteq> set zs'"
    "currentDepth b \<le> currentDepth d"
    unfolding grows_def by blast
  have disj: "set zs \<inter> set zs' = {}"
    using bd(5) ab(1) by auto
  have 1: "distinct (zs @ zs')"
    using ab(4) bd(4) disj by simp
  have 2: "set (zs @ zs') \<inter> set (scannedHosts a) = {}"
    using ab(5) bd(5) ab(1) by auto
  have 3: "distinct (map resource (rs @ rs'))"
    using ab(6,7) bd(6,7) disj by auto
  have 4: "set (map resource (rs @ rs')) \<subseteq> set (zs @ zs')"
    using ab(7) bd(7) by auto
  show ?thesis
    unfolding grows_def
    apply (rule exI [of _ "zs @ zs'"])
    apply (rule exI [of _ "rs @ rs'"])
    using ab(1,2,3,8) bd(1,2,3,8) 1 2 3 4 by simp
qed

lemma grows_prefix: "grows st st' \<Longrightarrow> prefix (scannedResourceInfo st) (scannedResourceInfo st')"
  by (auto simp: grows_def)

lemma candidate_Fetch:
  assumes "candidate lib c path st = Fetch h"
  shows "h \<notin> set (scannedHosts st)" and "currentDepth st \<noteq> maxDepth (CRAWLER_OPTIONS c)"
    and "cleanURL lib c path = Some h" and "path \<noteq> Some ''/''" and "h \<noteq> []"
  using assms by (auto simp: candidate_def split: if_splits option.splits)

lemma grows_request:
  "h \<notin> set (scannedHosts st) \<Longrightarrow> grows st (snd (fetchPageContent lib h (visit h incr st)))"
  unfolding grows_def visit_def fetchPageContent_def
  by (intro exI [of _ "[h]"] exI [of _ "[]"]) simp

lemma grows_request_record:
  "h \<notin> set (scannedHosts st) \<Longrightarrow>
   grows st (record_download h sz (snd (fetchPageContent lib h (visit h incr st))))"
  unfolding grows_def visit_def record_download_def fetchPageContent_def
  by (intro exI [of _ "[h]"] exI [of _ "[\<lparr>resource = h, size_bytes = sz\<rparr>]"]) simp

lemma download_cases:
  "fst (download lib c h incr st) = snd (fetchPageContent lib h (visit h incr st)) \<or>
   (\<exists>sz. fst (download lib c h incr st) =
      record_download h sz (snd (fetchPageContent lib h (visit h incr st))))"
  by (auto simp: download_def Let_def fetchPageContent_def split: fetch_result.splits option.splits)

lemma grows_download:
  "h \<notin> set (scannedHosts st) \<Longrightarrow> grows st (fst (download lib c h incr st))"
  using download_cases [of lib c h incr st] grows_request [of h st lib incr]
    grows_request_record [of h st _ lib incr]
  by auto

text \<open>
  A call that follows another goes on from the state the first has returned; a call that
  has thrown, or has run out of budget, ends what follows it.
\<close>

lemma grows_after:
  assumes "grows st (state_of p)" and "\<And>s. p = Returned s \<Longrightarrow> grows s (state_of (f s))"
  shows "grows st (state_of (case p of Returned s \<Rightarrow> f s | _ \<Rightarrow> p))"
proof (cases p)
  case (Returned s)
  with assms show ?thesis by (auto intro: grows_trans)
qed (use assms(1) in simp_all)

text \<open>
  The four functions are defined together, and so is what they keep: one induction on
  their calls.
\<close>

lemma grows_scan:
  "grows st (state_of (scanPage n lib c content st))"
  "grows st (state_of (readResourceContent n lib c content rs incr st))"
  "grows st (state_of (resource_loop n lib c html rs incr st))"
  "grows st (state_of (selector_loop n lib c incr paths st))"
proof (induction n lib c content st and n lib c content rs incr st and n lib c html rs incr st
         and n lib c incr paths st
       rule: scanPage_readResourceContent_resource_loop_selector_loop.induct)
  case (1 lib c content st)
  show ?case by (simp add: grows_refl)
next
  case (2 n lib c content st)
  show ?case
  proof (cases "includeAssets (CRAWLER_OPTIONS c)")
    case False
    with 2 show ?thesis by simp
  next
    case True
    have "grows st (state_of (case readResourceContent n lib c content ASSET_RESOURCES False st of
             Returned s \<Rightarrow> readResourceContent n lib c content [LINK_RESOURCE] True s
           | _ \<Rightarrow> readResourceContent n lib c content ASSET_RESOURCES False st))"
      using 2(1) [OF True] 2(2) [OF True] by (rule grows_after)
    with True show ?thesis by (simp split: progress.splits)
  qed
next
  case (3 n lib c resources incr st)
  show ?case by (simp add: grows_refl)
next
  case (4 n lib c html resources incr st)
  then show ?case by simp
next
  case (5 n lib c html incr st)
  show ?case by (simp add: grows_refl)
next
  case (6 n lib c html r resources incr st)
  have "grows st (state_of (case selector_loop n lib c incr (cheerio_attr lib html (selector r) (attribute r)) st of
             Returned s \<Rightarrow> resource_loop n lib c html resources incr s
           | _ \<Rightarrow> selector_loop n lib c incr (cheerio_attr lib html (selector r) (attribute r)) st))"
    using 6(1) 6(2) by (rule grows_after)
  then show ?case by (simp split: progress.splits)
next
  case (7 n lib c incr st)
  show ?case by (simp add: grows_refl)
next
  case (8 n lib c incr path paths st)
  show ?case
  proof (cases "candidate lib c path st")
    case Break
    then show ?thesis by (simp add: grows_refl)
  next
    case Continue
    with 8(1) show ?thesis by simp
  next
    case (Fetch h)
    then have new: "h \<notin> set (scannedHosts st)" by (rule candidate_Fetch)
    obtain st1 what where d: "download lib c h incr st = (st1, what)"
      by (cases "download lib c h incr st")
    with new have g1: "grows st st1" using grows_download [of h st lib c incr] by simp
    show ?thesis
    proof (cases what)
      case Throw
      with Fetch d g1 show ?thesis by simp
    next
      case Skip
      with Fetch d 8(2) have "grows st1 (state_of (selector_loop n lib c incr paths st1))" by simp
      with g1 Fetch d Skip show ?thesis by (simp add: grows_trans)
    next
      case (Scan content)
      have a: "grows st1 (state_of (scanPage n lib c content st1))"
        using 8(3) [OF Fetch d [symmetric] Scan] .
      have b: "grows s (state_of (selector_loop n lib c incr paths s))"
        if "scanPage n lib c content st1 = Returned s" for s
        using 8(4) [OF Fetch d [symmetric] Scan that] .
      have "grows st1 (state_of (case scanPage n lib c content st1 of
             Returned s \<Rightarrow> selector_loop n lib c incr paths s
           | _ \<Rightarrow> scanPage n lib c content st1))"
        using a b by (rule grows_after)
      with g1 have "grows st (state_of (case scanPage n lib c content st1 of
             Returned s \<Rightarrow> selector_loop n lib c incr paths s
           | _ \<Rightarrow> scanPage n lib c content st1))"
        by (rule grows_trans)
      with Fetch d Scan show ?thesis by (simp split: progress.splits)
    qed
  qed
qed

lemma selector_loop_Fetch:
  assumes f: "candidate lib c path st = Fetch h"
  shows "grows (fst (download lib c h incr st)) (state_of (selector_loop n lib c incr (path # paths) st))"
proof -
  obtain st1 what where d: "download lib c h incr st = (st1, what)"
    by (cases "download lib c h incr st")
  show ?thesis
  proof (cases what)
    case Throw
    with f d show ?thesis by (simp add: grows_refl)
  next
    case Skip
    with f d show ?thesis by (simp add: grows_scan)
  next
    case (Scan content)
    have "grows st1 (state_of (case scanPage n lib c content st1 of
             Returned s \<Rightarrow> selector_loop n lib c incr paths s
           | _ \<Rightarrow> scanPage n lib c content st1))"
      by (rule grows_after) (rule grows_scan)+
    with f d Scan show ?thesis by (simp split: progress.splits)
  qed
qed

lemma run_state:
  "grows (new_state\<lparr>fetched := [URL c]\<rparr>) (snd (run n lib c new_state))"
proof -
  let ?st0 = "new_state\<lparr>fetched := [URL c]\<rparr>"
  have st0: "new_state\<lparr>fetched := fetched new_state @ [URL c]\<rparr> = ?st0" by (simp add: new_state_def)
  show ?thesis
  proof (cases "axios_get lib (URL c)")
    case Failed
    then show ?thesis by (simp add: run_def fetchPageContent_def st0 grows_refl)
  next
    case (Response r)
    show ?thesis
    proof (cases "isSuccessResponse (Response r)")
      case False
      with Response show ?thesis by (auto simp: run_def fetchPageContent_def st0 grows_refl)
    next
      case True
      have "grows ?st0 (state_of (scanPage n lib c (data r) ?st0))" by (rule grows_scan)
      with Response True show ?thesis
        by (cases "scanPage n lib c (data r) ?st0") (simp_all add: run_def fetchPageContent_def st0)
    qed
  qed
qed

lemma run_resolved:
  "fst (run n lib c st) = Resolved ds \<Longrightarrow> ds = scannedResourceInfo (snd (run n lib c st))"
  by (auto simp: run_def fetchPageContent_def split: fetch_result.splits if_splits progress.splits)

text \<open>
  A host that is scanned stays scanned, and no later call requests it. So the requests
  sent after the seed request are one for each scanned host.
\<close>

lemma grows_scanned:
  assumes "grows st st'" and "h \<in> set (scannedHosts st)"
  shows "h \<in> set (scannedHosts st')" and "count_list (fetched st') h = count_list (fetched st) h"
proof -
  from assms(1) obtain zs where g:
    "scannedHosts st' = scannedHosts st @ zs" "fetched st' = fetched st @ zs"
    "set zs \<inter> set (scannedHosts st) = {}"
    unfolding grows_def by blast
  show "h \<in> set (scannedHosts st')" using g(1) assms(2) by simp
  have "h \<notin> set zs" using g(3) assms(2) by auto
  then show "count_list (fetched st') h = count_list (fetched st) h" using g(2) by simp
qed

lemma scanned_host_not_requested_again:
  assumes "h \<in> set (scannedHosts st)"
  shows "count_list (fetched (state_of (scanPage n lib c content st))) h = count_list (fetched st) h"
    and "h \<in> set (scannedHosts (state_of (scanPage n lib c content st)))"
  using grows_scanned [OF grows_scan(1) assms] by simp_all

lemma count_le_one: "distinct xs \<Longrightarrow> count_list xs x \<le> Suc 0"
  by (induction xs) auto

lemma requests_after_seed:
  "fetched (snd (run n lib c new_state)) = URL c # scannedHosts (snd (run n lib c new_state)) \<and>
   distinct (scannedHosts (snd (run n lib c new_state))) \<and>
   count_list (fetched (snd (run n lib c new_state))) u \<le> (if u = URL c then 2 else 1)"
proof -
  have a: "fetched (snd (run n lib c new_state)) = URL c # scannedHosts (snd (run n lib c new_state))"
    and b: "distinct (scannedHosts (snd (run n lib c new_state)))"
    using run_state [of c n lib] by (auto simp: grows_def new_state_def)
  from b have "count_list (scannedHosts (snd (run n lib c new_state))) u \<le> Suc 0"
    by (rule count_le_one)
  with a b show ?thesis by auto
qed

section \<open>The depth gate\<close>

lemma gate_selector_loop:
  "currentDepth st = maxDepth (CRAWLER_OPTIONS c) \<Longrightarrow> selector_loop n lib c incr paths st = Returned st"
  by (cases paths) (simp_all add: candidate_def)

lemma gate_resource_loop:
  "currentDepth st = maxDepth (CRAWLER_OPTIONS c) \<Longrightarrow>
   resource_loop n lib c html rs incr st = Returned st"
  by (induction rs) (simp_all add: gate_selector_loop)

lemma gate_readResourceContent:
  "currentDepth st = maxDepth (CRAWLER_OPTIONS c) \<Longrightarrow>
   readResourceContent n lib c content rs incr st = (case content of Str html \<Rightarrow> Returned st | Parsed \<Rightarrow> Thrown st)"
  by (cases content) (simp_all add: gate_resource_loop)

lemma gate_scanPage:
  "currentDepth st = maxDepth (CRAWLER_OPTIONS c) \<Longrightarrow> state_of (scanPage n lib c content st) = st"
  by (cases n; cases content) (simp_all add: gate_readResourceContent gate_resource_loop del: resource_loop.simps)

lemma gate_scanPage_Suc:
  "currentDepth st = maxDepth (CRAWLER_OPTIONS c) \<Longrightarrow> scanPage (Suc n) lib c (Str html) st = Returned st"
  by (simp add: gate_resource_loop del: resource_loop.simps)

lemma depth_download:
  "currentDepth (fst (download lib c h incr st)) = (if incr then currentDepth st + 1 else currentDepth st)"
  by (simp add: download_def Let_def visit_def record_download_def fetchPageContent_def
      split: fetch_result.splits option.splits)

lemma depth_after:
  assumes "currentDepth (state_of p) \<le> m" and "\<And>s. p = Returned s \<Longrightarrow> currentDepth (state_of (f s)) \<le> m"
  shows "currentDepth (state_of (case p of Returned s \<Rightarrow> f s | _ \<Rightarrow> p)) \<le> m"
  using assms by (cases p) simp_all

lemma depth_scan:
  "currentDepth st \<le> maxDepth (CRAWLER_OPTIONS c) \<Longrightarrow>
   currentDepth (state_of (scanPage n lib c content st)) \<le> maxDepth (CRAWLER_OPTIONS c)"
  "currentDepth st \<le> maxDepth (CRAWLER_OPTIONS c) \<Longrightarrow>
   currentDepth (state_of (readResourceContent n lib c content rs incr st)) \<le> maxDepth (CRAWLER_OPTIONS c)"
  "currentDepth st \<le> maxDepth (CRAWLER_OPTIONS c) \<Longrightarrow>
   currentDepth (state_of (resource_loop n lib c html rs incr st)) \<le> maxDepth (CRAWLER_OPTIONS c)"
  "currentDepth st \<le> maxDepth (CRAWLER_OPTIONS c) \<Longrightarrow>
   currentDepth (state_of (selector_loop n lib c incr paths st)) \<le> maxDepth (CRAWLER_OPTIONS c)"
proof (induction n lib c content st and n lib c content rs incr st and n lib c html rs incr st
         and n lib c incr paths st
       rule: scanPage_readResourceContent_resource_loop_selector_loop.induct)
  case (1 lib c content st)
  then show ?case by simp
next
  case (2 n lib c content st)
  show ?case
  proof (cases "includeAssets (CRAWLER_OPTIONS c)")
    case False
    with 2 show ?thesis by simp
  next
    case True
    have "currentDepth (state_of (case readResourceContent n lib c content ASSET_RESOURCES False st of
             Returned s \<Rightarrow> readResourceContent n lib c content [LINK_RESOURCE] True s
           | _ \<Rightarrow> readResourceContent n lib c content ASSET_RESOURCES False st))
          \<le> maxDepth (CRAWLER_OPTIONS c)"
    proof (rule depth_after)
      show "currentDepth (state_of (readResourceContent n lib c content ASSET_RESOURCES False st))
            \<le> maxDepth (CRAWLER_OPTIONS c)"
        using 2(1) [OF True 2(4)] .
    next
      fix s assume r: "readResourceContent n lib c content ASSET_RESOURCES False st = Returned s"
      with 2(1) [OF True 2(4)] have "currentDepth s \<le> maxDepth (CRAWLER_OPTIONS c)" by simp
      then show "currentDepth (state_of (readResourceContent n lib c content [LINK_RESOURCE] True s))
            \<le> maxDepth (CRAWLER_OPTIONS c)"
        using 2(2) [OF True r] by simp
    qed
    with True show ?thesis by (simp split: progress.splits)
  qed
next
  case (3 n lib c resources incr st)
  then show ?case by simp
next
  case (4 n lib c html resources incr st)
  then show ?case by simp
next
  case (5 n lib c html incr st)
  then show ?case by simp
next
  case (6 n lib c html r resources incr st)
  let ?p = "selector_loop n lib c incr (cheerio_attr lib html (selector r) (attribute r)) st"
  have "currentDepth (state_of (case ?p of
             Returned s \<Rightarrow> resource_loop n lib c html resources incr s | _ \<Rightarrow> ?p))
          \<le> maxDepth (CRAWLER_OPTIONS c)"
  proof (rule depth_after)
    show "currentDepth (state_of ?p) \<le> maxDepth (CRAWLER_OPTIONS c)" using 6(1) [OF 6(3)] .
  next
    fix s assume r: "?p = Returned s"
    with 6(1) [OF 6(3)] have "currentDepth s \<le> maxDepth (CRAWLER_OPTIONS c)" by simp
    then show "currentDepth (state_of (resource_loop n lib c html resources incr s))
            \<le> maxDepth (CRAWLER_OPTIONS c)"
      using 6(2) [OF r] by simp
  qed
  then show ?case by (simp split: progress.splits)
next
  case (7 n lib c incr st)
  then show ?case by simp
next
  case (8 n lib c incr path paths st)
  show ?case
  proof (cases "candidate lib c path st")
    case Break
    with 8(5) show ?thesis by simp
  next
    case Continue
    with 8(1,5) show ?thesis by simp
  next
    case (Fetch h)
    then have open_gate: "currentDepth st \<noteq> maxDepth (CRAWLER_OPTIONS c)" by (rule candidate_Fetch)
    obtain st1 what where d: "download lib c h incr st = (st1, what)"
      by (cases "download lib c h incr st")
    have "currentDepth st1 \<le> currentDepth st + 1"
      using depth_download [of lib c h incr st] d by (simp split: if_splits)
    with open_gate 8(5) have b1: "currentDepth st1 \<le> maxDepth (CRAWLER_OPTIONS c)" by simp
    show ?thesis
    proof (cases what)
      case Throw
      with Fetch d b1 show ?thesis by simp
    next
      case Skip
      with Fetch d 8(2) b1 show ?thesis by simp
    next
      case (Scan content)
      let ?p = "scanPage n lib c content st1"
      have "currentDepth (state_of (case ?p of
             Returned s \<Rightarrow> selector_loop n lib c incr paths s | _ \<Rightarrow> ?p))
          \<le> maxDepth (CRAWLER_OPTIONS c)"
      proof (rule depth_after)
        show "currentDepth (state_of ?p) \<le> maxDepth (CRAWLER_OPTIONS c)"
          using 8(3) [OF Fetch d [symmetric] Scan b1] .
      next
        fix s assume r: "?p = Returned s"
        with 8(3) [OF Fetch d [symmetric] Scan b1] have "currentDepth s \<le> maxDepth (CRAWLER_OPTIONS c)"
          by simp
        then show "currentDepth (state_of (selector_loop n lib c incr paths s))
            \<le> maxDepth (CRAWLER_OPTIONS c)"
          using 8(4) [OF Fetch d [symmetric] Scan r] by simp
      qed
      with Fetch d Scan show ?thesis by (simp split: progress.splits)
    qed
  qed
qed

section \<open>One attribute value\<close>

lemma skip_root_path:
  "selector_loop n lib c incr (filter (\<lambda>p. p \<noteq> Some ''/'') paths) st = selector_loop n lib c incr paths st"
proof (induction paths arbitrary: st)
  case Nil
  show ?case by simp
next
  case (Cons p ps)
  show ?case
  proof (cases "p = Some ''/''")
    case True
    have "selector_loop n lib c incr (p # ps) st = selector_loop n lib c incr ps st"
      using True gate_selector_loop [of st c n lib incr ps]
      by (cases "currentDepth st = maxDepth (CRAWLER_OPTIONS c)") (simp_all add: candidate_def)
    with True Cons show ?thesis by simp
  next
    case False
    with Cons show ?thesis
      by (simp split: candidate.splits prod.splits after_fetch.splits progress.splits)
  qed
qed

lemma download_unsuccessful:
  "\<not> isSuccessResponse (axios_get lib h) \<Longrightarrow>
   download lib c h incr st = ((visit h incr st)\<lparr>fetched := fetched st @ [h]\<rparr>, Skip)"
  by (auto simp: download_def fetchPageContent_def visit_def split: fetch_result.splits)

lemma download_successful:
  "axios_get lib h = Response r \<Longrightarrow> 200 \<le> status r \<Longrightarrow> status r < 300 \<Longrightarrow>
   download_size r = Some sz \<Longrightarrow>
   fst (download lib c h incr st) = record_download h sz ((visit h incr st)\<lparr>fetched := fetched st @ [h]\<rparr>)"
  by (simp add: download_def Let_def fetchPageContent_def visit_def)

lemma download_throws:
  "axios_get lib h = Response r \<Longrightarrow> 200 \<le> status r \<Longrightarrow> status r < 300 \<Longrightarrow>
   download_size r = None \<Longrightarrow>
   download lib c h incr st = ((visit h incr st)\<lparr>fetched := fetched st @ [h]\<rparr>, Throw)"
  by (simp add: download_def Let_def fetchPageContent_def visit_def)

lemma run_unsuccessful_seed:
  "\<not> isSuccessResponse (axios_get lib (URL c)) \<Longrightarrow>
   run n lib c st = (Pending, st\<lparr>fetched := fetched st @ [URL c]\<rparr>)"
  by (auto simp: run_def fetchPageContent_def split: fetch_result.splits)

text \<open>
  The size of a download is not computed for a content that is not a string, unless the
  \<^verbatim>\<open>Content-Length\<close> is a number other than 0. For a string it is the \<^verbatim>\<open>Content-Length\<close>
  when that is a number other than 0, and the length of the string otherwise.
\<close>

lemma download_size_None:
  "download_size r = None \<longleftrightarrow>
   data r = Parsed \<and> (content_length r = NaN \<or> content_length r = Number 0)"
  by (cases "content_length r"; cases "data r") (auto simp: download_size_def)

lemma download_size_Str:
  "data r = Str body \<Longrightarrow>
   download_size r = Some (case content_length r of
                              NaN \<Rightarrow> int (length body)
                            | Number x \<Rightarrow> if x = 0 then int (length body) else x)"
  by (cases "content_length r") (auto simp: download_size_def)

lemma string_download_recorded:
  assumes "candidate lib c path st = Fetch h"
      and "axios_get lib h = Response r"
      and "200 \<le> status r" and "status r < 300"
      and "data r = Str body"
  shows "prefix
           (scannedResourceInfo st @
            [\<lparr>resource = h,
              size_bytes = (case content_length r of
                              NaN \<Rightarrow> int (length body)
                            | Number x \<Rightarrow> if x = 0 then int (length body) else x)\<rparr>])
           (scannedResourceInfo (state_of (selector_loop n lib c incr (path # paths) st)))"
proof -
  let ?sz = "case content_length r of
                              NaN \<Rightarrow> int (length body)
                            | Number x \<Rightarrow> if x = 0 then int (length body) else x"
  have "fst (download lib c h incr st) = record_download h ?sz ((visit h incr st)\<lparr>fetched := fetched st @ [h]\<rparr>)"
    using assms(2-4) download_size_Str [OF assms(5)] by (rule download_successful)
  then have "grows (record_download h ?sz ((visit h incr st)\<lparr>fetched := fetched st @ [h]\<rparr>))
               (state_of (selector_loop n lib c incr (path # paths) st))"
    using selector_loop_Fetch [OF assms(1), of incr n paths] by simp
  then have "prefix (scannedResourceInfo (record_download h ?sz ((visit h incr st)\<lparr>fetched := fetched st @ [h]\<rparr>)))
               (scannedResourceInfo (state_of (selector_loop n lib c incr (path # paths) st)))"
    by (rule grows_prefix)
  then show ?thesis by (simp add: record_download_def visit_def)
qed

lemma json_download_throws:
  assumes "candidate lib c path st = Fetch h"
      and "axios_get lib h = Response r"
      and "200 \<le> status r" and "status r < 300"
      and "data r = Parsed"
      and "content_length r = NaN \<or> content_length r = Number 0"
  shows "selector_loop n lib c incr (path # paths) st =
           Thrown ((visit h incr st)\<lparr>fetched := fetched st @ [h]\<rparr>)"
proof -
  have "download_size r = None" using assms(5,6) by (simp add: download_size_None)
  with assms(2-4) have "download lib c h incr st = ((visit h incr st)\<lparr>fetched := fetched st @ [h]\<rparr>, Throw)"
    by (rule download_throws)
  with assms(1) show ?thesis by simp
qed

section \<open>Crawls that end\<close>

text \<open>
  A crawl that follows links only ends, by a return or by an exception: each nested call
  of \<^verbatim>\<open>scanPage\<close> is made one link deeper, and the gate stops at \<^verbatim>\<open>maxDepth\<close>. A budget above
  \<^verbatim>\<open>maxDepth\<close> is enough. (With assets the crawler scans what an asset request returns
  without going deeper, and nothing bounds the crawl.)
\<close>

lemma ends_after:
  assumes "\<exists>s. p = Returned s \<or> p = Thrown s"
      and "\<And>s. p = Returned s \<Longrightarrow> \<exists>s'. f s = Returned s' \<or> f s = Thrown s'"
  shows "\<exists>s'. (case p of Returned s \<Rightarrow> f s | _ \<Rightarrow> p) = Returned s' \<or>
              (case p of Returned s \<Rightarrow> f s | _ \<Rightarrow> p) = Thrown s'"
  using assms by (cases p) auto

lemma link_crawl_ends:
  "\<not> includeAssets (CRAWLER_OPTIONS c) \<Longrightarrow> currentDepth st \<le> maxDepth (CRAWLER_OPTIONS c) \<Longrightarrow>
   maxDepth (CRAWLER_OPTIONS c) - currentDepth st < int n \<Longrightarrow>
   \<exists>st'. scanPage n lib c content st = Returned st' \<or> scanPage n lib c content st = Thrown st'"
  "\<not> includeAssets (CRAWLER_OPTIONS c) \<Longrightarrow> currentDepth st \<le> maxDepth (CRAWLER_OPTIONS c) \<Longrightarrow>
   maxDepth (CRAWLER_OPTIONS c) - currentDepth st \<le> int n \<Longrightarrow> incr \<Longrightarrow>
   \<exists>st'. readResourceContent n lib c content rs incr st = Returned st' \<or>
         readResourceContent n lib c content rs incr st = Thrown st'"
  "\<not> includeAssets (CRAWLER_OPTIONS c) \<Longrightarrow> currentDepth st \<le> maxDepth (CRAWLER_OPTIONS c) \<Longrightarrow>
   maxDepth (CRAWLER_OPTIONS c) - currentDepth st \<le> int n \<Longrightarrow> incr \<Longrightarrow>
   \<exists>st'. resource_loop n lib c html rs incr st = Returned st' \<or>
         resource_loop n lib c html rs incr st = Thrown st'"
  "\<not> includeAssets (CRAWLER_OPTIONS c) \<Longrightarrow> currentDepth st \<le> maxDepth (CRAWLER_OPTIONS c) \<Longrightarrow>
   maxDepth (CRAWLER_OPTIONS c) - currentDepth st \<le> int n \<Longrightarrow> incr \<Longrightarrow>
   \<exists>st'. selector_loop n lib c incr paths st = Returned st' \<or>
         selector_loop n lib c incr paths st = Thrown st'"
proof (induction n lib c content st and n lib c content rs incr st and n lib c html rs incr st
         and n lib c incr paths st
       rule: scanPage_readResourceContent_resource_loop_selector_loop.induct)
  case (1 lib c content st)
  then show ?case by simp
next
  case (2 n lib c content st)
  then show ?case by simp
next
  case (3 n lib c resources incr st)
  then show ?case by simp
next
  case (4 n lib c html resources incr st)
  then show ?case by simp
next
  case (5 n lib c html incr st)
  then show ?case by simp
next
  case (6 n lib c html r resources incr st)
  let ?p = "selector_loop n lib c incr (cheerio_attr lib html (selector r) (attribute r)) st"
  have "\<exists>s'. (case ?p of Returned s \<Rightarrow> resource_loop n lib c html resources incr s | _ \<Rightarrow> ?p) = Returned s' \<or>
              (case ?p of Returned s \<Rightarrow> resource_loop n lib c html resources incr s | _ \<Rightarrow> ?p) = Thrown s'"
  proof (rule ends_after)
    show "\<exists>s. ?p = Returned s \<or> ?p = Thrown s" using 6(1) [OF 6(3,4,5,6)] .
  next
    fix s assume r: "?p = Returned s"
    have g: "grows st s" using grows_scan(4) [of st n lib c incr "cheerio_attr lib html (selector r) (attribute r)"] r by simp
    have d: "currentDepth s \<le> maxDepth (CRAWLER_OPTIONS c)"
      using depth_scan(4) [OF 6(4), of n lib incr "cheerio_attr lib html (selector r) (attribute r)"] r by simp
    have "currentDepth st \<le> currentDepth s" using g by (auto simp: grows_def)
    with 6(5) have "maxDepth (CRAWLER_OPTIONS c) - currentDepth s \<le> int n" by simp
    from 6(2) [OF r 6(3) d this 6(6)]
    show "\<exists>s'. resource_loop n lib c html resources incr s = Returned s' \<or>
               resource_loop n lib c html resources incr s = Thrown s'" .
  qed
  then show ?case by (simp split: progress.splits)
next
  case (7 n lib c incr st)
  then show ?case by simp
next
  case (8 n lib c incr path paths st)
  show ?case
  proof (cases "candidate lib c path st")
    case Break
    then show ?thesis by simp
  next
    case Continue
    with 8(1) [OF Continue 8(5,6,7,8)] show ?thesis by simp
  next
    case (Fetch h)
    then have open_gate: "currentDepth st \<noteq> maxDepth (CRAWLER_OPTIONS c)" by (rule candidate_Fetch)
    obtain st1 what where dl: "download lib c h incr st = (st1, what)"
      by (cases "download lib c h incr st")
    have d1: "currentDepth st1 = currentDepth st + 1"
      using depth_download [of lib c h incr st] dl 8(8) by simp
    with open_gate 8(6) have b1: "currentDepth st1 \<le> maxDepth (CRAWLER_OPTIONS c)" by simp
    from d1 8(7) have m1: "maxDepth (CRAWLER_OPTIONS c) - currentDepth st1 < int n" by simp
    show ?thesis
    proof (cases what)
      case Throw
      with Fetch dl show ?thesis by simp
    next
      case Skip
      from m1 have "maxDepth (CRAWLER_OPTIONS c) - currentDepth st1 \<le> int n" by simp
      from 8(2) [OF Fetch dl [symmetric] Skip 8(5) b1 this 8(8)] Fetch dl Skip show ?thesis by simp
    next
      case (Scan content)
      let ?p = "scanPage n lib c content st1"
      have "\<exists>s'. (case ?p of Returned s \<Rightarrow> selector_loop n lib c incr paths s | _ \<Rightarrow> ?p) = Returned s' \<or>
              (case ?p of Returned s \<Rightarrow> selector_loop n lib c incr paths s | _ \<Rightarrow> ?p) = Thrown s'"
      proof (rule ends_after)
        show "\<exists>s. ?p = Returned s \<or> ?p = Thrown s"
          using 8(3) [OF Fetch dl [symmetric] Scan 8(5) b1 m1] .
      next
        fix s assume r: "?p = Returned s"
        have g: "grows st1 s" using grows_scan(1) [of st1 n lib c content] r by simp
        have d: "currentDepth s \<le> maxDepth (CRAWLER_OPTIONS c)"
          using depth_scan(1) [OF b1, of n lib content] r by simp
        have "currentDepth st1 \<le> currentDepth s" using g by (auto simp: grows_def)
        with m1 have "maxDepth (CRAWLER_OPTIONS c) - currentDepth s \<le> int n" by simp
        from 8(4) [OF Fetch dl [symmetric] Scan r 8(5) d this 8(8)]
        show "\<exists>s'. selector_loop n lib c incr paths s = Returned s' \<or>
               selector_loop n lib c incr paths s = Thrown s'" .
      qed
      with Fetch dl Scan show ?thesis by (simp split: progress.splits)
    qed
  qed
qed

section \<open>The site, crawled\<close>

text \<open>
  The constructor builds the crawler of the examples from the seed \<^verbatim>\<open>http://a.test\<close>. With
  \<^verbatim>\<open>maxDepth\<close> 10 the crawl ends within the budget 3; the seed page links to itself, to a
  page of three bytes and to a page that is gone.
\<close>

lemma example_constructed:
  "new_Crawler example_lib ''http://a.test'' (Some \<lparr>maxDepth = d, includeAssets = a\<rparr>) = Inr (example_crawler d a)"
  by (simp add: new_Crawler_def example_lib_def node_parse_def http_host_def example_crawler_def)

lemma example_run:
  "run 3 example_lib (example_crawler 10 True) new_state =
     (Resolved
       [\<lparr>resource = ''http://a.test/logo.png'', size_bytes = 1024\<rparr>,
        \<lparr>resource = ''http://a.test/x'', size_bytes = 3\<rparr>,
        \<lparr>resource = ''http://a.test'', size_bytes = 88\<rparr>],
      \<lparr>currentDepth = 3,
       scannedHosts = [''http://a.test/logo.png'', ''http://a.test/x'', ''http://a.test'', ''http://a.test/gone''],
       scannedResourceInfo =
       [\<lparr>resource = ''http://a.test/logo.png'', size_bytes = 1024\<rparr>,
        \<lparr>resource = ''http://a.test/x'', size_bytes = 3\<rparr>,
        \<lparr>resource = ''http://a.test'', size_bytes = 88\<rparr>],
       fetched = [''http://a.test'', ''http://a.test/logo.png'', ''http://a.test/x'', ''http://a.test'', ''http://a.test/gone'']\<rparr>)"
  by code_simp

lemma example_run_links:
  "run 3 example_lib (example_crawler 10 False) new_state =
     (Resolved
       [\<lparr>resource = ''http://a.test/x'', size_bytes = 3\<rparr>,
        \<lparr>resource = ''http://a.test'', size_bytes = 88\<rparr>],
      \<lparr>currentDepth = 3,
       scannedHosts = [''http://a.test/x'', ''http://a.test'', ''http://a.test/gone''],
       scannedResourceInfo =
       [\<lparr>resource = ''http://a.test/x'', size_bytes = 3\<rparr>,
        \<lparr>resource = ''http://a.test'', size_bytes = 88\<rparr>],
       fetched = [''http://a.test'', ''http://a.test/x'', ''http://a.test'', ''http://a.test/gone'']\<rparr>)"
  by code_simp

section \<open>Claim C1: a crawl with \<^verbatim>\<open>maxDepth\<close> 0\<close>

text \<open>
  Claim C1, as the code has it. With \<^verbatim>\<open>maxDepth\<close> 0 the depth gate of line 179 is closed
  from the start, for the asset rules as for the link rule. Whatever the budget \<open>n\<close>, the
  crawl sends the seed request and nothing else: no host is scanned, no download is
  recorded, the depth stays 0. So no link is fetched below the seed page, and no asset of
  the seed page is collected either, with \<^verbatim>\<open>includeAssets\<close> or without.
\<close>

theorem maxDepth_zero_fetches_nothing:
  assumes "maxDepth (CRAWLER_OPTIONS c) = 0"
  shows "snd (run n lib c new_state) = new_state\<lparr>fetched := [URL c]\<rparr>"
proof -
  let ?st0 = "new_state\<lparr>fetched := [URL c]\<rparr>"
  have st0: "new_state\<lparr>fetched := fetched new_state @ [URL c]\<rparr> = ?st0" by (simp add: new_state_def)
  have gate: "currentDepth ?st0 = maxDepth (CRAWLER_OPTIONS c)" using assms by (simp add: new_state_def)
  have a: "state_of (scanPage n lib c content ?st0) = ?st0" for content
    using gate by (rule gate_scanPage)
  show ?thesis
  proof (cases "axios_get lib (URL c)")
    case Failed
    then show ?thesis by (simp add: run_def fetchPageContent_def st0)
  next
    case (Response r)
    show ?thesis
      using Response a [of "data r"]
      by (cases "scanPage n lib c (data r) ?st0") (simp_all add: run_def fetchPageContent_def st0)
  qed
qed

text \<open>
  Claim C1, the theorem at the crawler of the examples, with \<^verbatim>\<open>maxDepth\<close> 0 and no assets.
\<close>

theorem maxDepth_zero_fetches_nothing_witness:
  "maxDepth (CRAWLER_OPTIONS (example_crawler 0 False)) = 0 \<and>
   snd (run 2 example_lib (example_crawler 0 False) new_state) = new_state\<lparr>fetched := [''http://a.test'']\<rparr>"
proof -
  have h: "maxDepth (CRAWLER_OPTIONS (example_crawler 0 False)) = 0"
    by (simp add: example_crawler_def)
  have u: "URL (example_crawler 0 False) = ''http://a.test''"
    by (simp add: example_crawler_def)
  from maxDepth_zero_fetches_nothing [OF h, of 2 example_lib] h u show ?thesis by simp
qed

text \<open>
  Claim C1 as it is stated does not hold: it has the assets of the seed page collected
  when \<^verbatim>\<open>includeAssets\<close> is true. Here \<^verbatim>\<open>includeAssets\<close> is true and \<^verbatim>\<open>maxDepth\<close> is 0, the
  seed page has an image, the clean URL of the image answers with success, and yet the crawl
  resolves with the empty list and has sent the seed request only.
\<close>

theorem maxDepth_zero_suppresses_assets:
  "includeAssets (CRAWLER_OPTIONS (example_crawler 0 True)) \<and>
   maxDepth (CRAWLER_OPTIONS (example_crawler 0 True)) = 0 \<and>
   axios_get example_lib (URL (example_crawler 0 True)) =
     Response \<lparr>status = 200, content_length = NaN, data = Str seed_page\<rparr> \<and>
   cheerio_attr example_lib seed_page ''img'' ''src'' = [Some ''/logo.png''] \<and>
   cleanURL example_lib (example_crawler 0 True) (Some ''/logo.png'') = Some ''http://a.test/logo.png'' \<and>
   isSuccessResponse (axios_get example_lib ''http://a.test/logo.png'') \<and>
   run 3 example_lib (example_crawler 0 True) new_state =
     (Resolved [], new_state\<lparr>fetched := [''http://a.test'']\<rparr>)"
  by code_simp

section \<open>Claim C2: one request for each URL\<close>

text \<open>
  Claim C2 wants one request at most for each URL, the seed URL too. The code sends two for
  the seed URL: \<^verbatim>\<open>run\<close> requests it without pushing it on \<^verbatim>\<open>scannedHosts\<close>, as
  \<^verbatim>\<open>readResourceContent\<close> does before each of its requests. The seed page of the examples
  links back to the seed (\<^verbatim>\<open><a href=http://a.test/>\<close>); the clean URL of that link is the
  seed URL, the loop finds it new, and requests it a second time. For the requests after
  the first the claim holds (\<open>requests_after_seed\<close> above).
\<close>

theorem seed_fetched_twice:
  "cleanURL example_lib (example_crawler 10 False) (Some ''http://a.test/'') = Some (URL (example_crawler 10 False)) \<and>
   fetched (snd (run 3 example_lib (example_crawler 10 False) new_state)) =
     [''http://a.test'', ''http://a.test/x'', ''http://a.test'', ''http://a.test/gone''] \<and>
   count_list (fetched (snd (run 3 example_lib (example_crawler 10 False) new_state))) ''http://a.test'' = 2"
proof -
  have "cleanURL example_lib (example_crawler 10 False) (Some ''http://a.test/'') = Some (URL (example_crawler 10 False))"
    by code_simp
  then show ?thesis by (simp add: example_run_links)
qed

section \<open>Claim C3: no resource is recorded twice\<close>

text \<open>
  Claim C3. Whatever the budget, no two recorded downloads have the same resource; so the
  list the promise is resolved with has no two entries with the same resource.
\<close>

theorem downloads_distinct:
  "distinct (map resource (scannedResourceInfo (snd (run n lib c new_state)))) \<and>
   (\<forall>ds. fst (run n lib c new_state) = Resolved ds \<longrightarrow> distinct (map resource ds))"
proof -
  have "distinct (map resource (scannedResourceInfo (snd (run n lib c new_state))))"
    using run_state [of c n lib] by (auto simp: grows_def new_state_def)
  then show ?thesis using run_resolved [of n lib c new_state] by auto
qed

text \<open>
  Claim C3, the theorem at the crawl of the examples, which resolves with three downloads.
\<close>

theorem downloads_distinct_witness:
  "fst (run 3 example_lib (example_crawler 10 True) new_state) =
     Resolved
       [\<lparr>resource = ''http://a.test/logo.png'', size_bytes = 1024\<rparr>,
        \<lparr>resource = ''http://a.test/x'', size_bytes = 3\<rparr>,
        \<lparr>resource = ''http://a.test'', size_bytes = 88\<rparr>] \<and>
   distinct (map resource
       [\<lparr>resource = ''http://a.test/logo.png'', size_bytes = 1024\<rparr>,
        \<lparr>resource = ''http://a.test/x'', size_bytes = 3\<rparr>,
        \<lparr>resource = ''http://a.test'', size_bytes = 88\<rparr>])"
proof -
  have r: "fst (run 3 example_lib (example_crawler 10 True) new_state) =
     Resolved
       [\<lparr>resource = ''http://a.test/logo.png'', size_bytes = 1024\<rparr>,
        \<lparr>resource = ''http://a.test/x'', size_bytes = 3\<rparr>,
        \<lparr>resource = ''http://a.test'', size_bytes = 88\<rparr>]"
    by (simp add: example_run)
  from downloads_distinct [of 3 example_lib "example_crawler 10 True"] r show ?thesis by blast
qed

section \<open>Claim C4: a seed that does not answer\<close>

text \<open>
  Claim C4 wants \<^verbatim>\<open>run\<close> to resolve with the empty list when the seed request does not
  succeed. The code does not do that: for the crawler whose seed does not answer, the
  promise is pending whatever the budget. \<^verbatim>\<open>resolve\<close> is called only after a successful seed
  request (\<open>run_unsuccessful_seed\<close> above, for every crawler).
\<close>

theorem unsuccessful_seed_never_resolves:
  "\<forall>n. run n example_lib down_crawler new_state =
        (Pending, new_state\<lparr>fetched := [''http://down.test'']\<rparr>)"
proof
  fix n
  have "\<not> isSuccessResponse (axios_get example_lib (URL down_crawler))"
    by code_simp
  then have "run n example_lib down_crawler new_state =
     (Pending, new_state\<lparr>fetched := fetched new_state @ [URL down_crawler]\<rparr>)"
    by (rule run_unsuccessful_seed)
  then show "run n example_lib down_crawler new_state =
        (Pending, new_state\<lparr>fetched := [''http://down.test'']\<rparr>)"
    by (simp add: new_state_def down_crawler_def)
qed

section \<open>Claim C5: the clean URL of a clean URL\<close>

text \<open>
  Claim C5 wants \<^verbatim>\<open>cleanURL\<close> idempotent. The code is not, at the relative path
  \<^verbatim>\<open>About.html\<close> (an anchor \<^verbatim>\<open><a href=About.html>\<close> on a page of \<^verbatim>\<open>a.test\<close>): \<^verbatim>\<open>cleanURL\<close>
  writes the path name right after the host name, with no \<^verbatim>\<open>/\<close> between them, and
  \<^verbatim>\<open>url.parse\<close> reads the result back as a URL whose host name is \<^verbatim>\<open>a.testabout.html\<close>, in
  lower case. The clean URL of the clean URL is another string.
\<close>

theorem cleanURL_not_idempotent:
  "cleanURL example_lib (example_crawler 10 False) (Some ''About.html'') = Some ''http://a.testAbout.html'' \<and>
   cleanURL example_lib (example_crawler 10 False) (Some ''http://a.testAbout.html'') = Some ''http://a.testabout.html'' \<and>
   cleanURL example_lib (example_crawler 10 False)
      (cleanURL example_lib (example_crawler 10 False) (Some ''About.html'')) \<noteq>
   cleanURL example_lib (example_crawler 10 False) (Some ''About.html'')"
  by code_simp

section \<open>Claim C6: a bare trailing slash\<close>

text \<open>
  Claim C6. \<^verbatim>\<open>cleanURL\<close> leaves out a path name that is \<^verbatim>\<open>null\<close>, empty or \<^verbatim>\<open>/\<close>: two inputs
  for which \<^verbatim>\<open>url.parse\<close> finds the same host name, protocol and port, and for each a
  path name that is \<^verbatim>\<open>null\<close>, empty or \<^verbatim>\<open>/\<close>, have the same clean URL. \<^verbatim>\<open>url.parse\<close> is not
  code of the crawler, so the theorem says what it needs of it; Node's answers for
  \<^verbatim>\<open>http://h.com\<close> and \<^verbatim>\<open>http://h.com/\<close> are the same, with the path name \<^verbatim>\<open>/\<close>.
\<close>

theorem cleanURL_omits_bare_slash:
  assumes "u \<noteq> []" and "v \<noteq> []"
      and "hostname (url_parse lib u) = hostname (url_parse lib v)"
      and "protocol (url_parse lib u) = protocol (url_parse lib v)"
      and "port (url_parse lib u) = port (url_parse lib v)"
      and "pathname (url_parse lib u) = None \<or> pathname (url_parse lib u) = Some [] \<or>
           pathname (url_parse lib u) = Some ''/''"
      and "pathname (url_parse lib v) = None \<or> pathname (url_parse lib v) = Some [] \<or>
           pathname (url_parse lib v) = Some ''/''"
  shows "cleanURL lib c (Some u) = cleanURL lib c (Some v)"
  using assms by (auto simp: cleanURL_def Let_def)

text \<open>
  Claim C6, the theorem at \<^verbatim>\<open>http://h.com\<close> and \<^verbatim>\<open>http://h.com/\<close>, with the answers of
  \<open>node_parse\<close>: the clean URL of both is \<^verbatim>\<open>http://h.com\<close>.
\<close>

theorem cleanURL_omits_bare_slash_witness:
  "url_parse example_lib ''http://h.com'' = url_parse example_lib ''http://h.com/'' \<and>
   pathname (url_parse example_lib ''http://h.com/'') = Some ''/'' \<and>
   cleanURL example_lib (example_crawler 10 False) (Some ''http://h.com'') =
   cleanURL example_lib (example_crawler 10 False) (Some ''http://h.com/'') \<and>
   cleanURL example_lib (example_crawler 10 False) (Some ''http://h.com/'') = Some ''http://h.com''"
proof -
  have e: "url_parse example_lib ''http://h.com'' = url_parse example_lib ''http://h.com/''"
    by (simp add: example_lib_def node_parse_def)
  have p: "pathname (url_parse example_lib ''http://h.com/'') = Some ''/''"
    by (simp add: example_lib_def node_parse_def http_host_def)
  have "cleanURL example_lib (example_crawler 10 False) (Some ''http://h.com'') =
        cleanURL example_lib (example_crawler 10 False) (Some ''http://h.com/'')"
    by (rule cleanURL_omits_bare_slash) (simp_all add: e p)
  moreover have "cleanURL example_lib (example_crawler 10 False) (Some ''http://h.com/'') = Some ''http://h.com''"
    by code_simp
  ultimately show ?thesis using e p by simp
qed

section \<open>Claim C7: the path \<^verbatim>\<open>/\<close>\<close>

text \<open>
  Claim C7. An attribute value \<^verbatim>\<open>/\<close>, wherever it stands among the values of a selector,
  is skipped: from any state and with any budget the loop does on the list with it what it
  does on the list without it. The same hosts are scanned, the same requests sent and the
  same downloads recorded, and the values after it are read as they would be without it.
  The value \<^verbatim>\<open>/\<close> itself is never a host to fetch.
\<close>

theorem root_path_skipped:
  "selector_loop n lib c incr (before @ Some ''/'' # after) st =
   selector_loop n lib c incr (before @ after) st \<and>
   (\<forall>h. candidate lib c (Some ''/'') st \<noteq> Fetch h)"
proof -
  have "selector_loop n lib c incr (filter (\<lambda>p. p \<noteq> Some ''/'') (before @ Some ''/'' # after)) st =
        selector_loop n lib c incr (filter (\<lambda>p. p \<noteq> Some ''/'') (before @ after)) st"
    by simp
  then have "selector_loop n lib c incr (before @ Some ''/'' # after) st =
   selector_loop n lib c incr (before @ after) st"
    by (simp only: skip_root_path)
  moreover have "\<forall>h. candidate lib c (Some ''/'') st \<noteq> Fetch h"
    by (simp add: candidate_def)
  ultimately show ?thesis by blast
qed

section \<open>Claim C8: the size of a download\<close>

text \<open>
  Claim C8 wants a record for every request answered with a status in [200, 300), with the
  byte length of the body for its size when there is no numeric \<^verbatim>\<open>Content-Length\<close>. The
  code makes none for the page \<^verbatim>\<open>/api\<close>, which answers with status 200, a JSON body and no
  \<^verbatim>\<open>Content-Length\<close>: \<^verbatim>\<open>axios\<close> hands the body over parsed, \<^verbatim>\<open>Buffer.byteLength\<close> throws on
  what is not a string, line 204 is not reached, and the link after it is never read. The
  exception is caught nowhere, so the promise of \<^verbatim>\<open>run\<close> stays pending
  (\<open>json_download_throws\<close> above, for every such response). For a content that is a string
  the record is made (\<open>string_download_recorded\<close>).
\<close>

theorem json_download_not_recorded:
  "candidate example_lib list_crawler (Some ''/api'') new_state = Fetch ''http://a.test/api'' \<and>
   axios_get example_lib ''http://a.test/api'' =
     Response \<lparr>status = 200, content_length = NaN, data = Parsed\<rparr> \<and>
   selector_loop 2 example_lib list_crawler True [Some ''/api'', Some ''/x''] new_state =
     Thrown \<lparr>currentDepth = 1, scannedHosts = [''http://a.test/api''], scannedResourceInfo = [],
             fetched = [''http://a.test/api'']\<rparr> \<and>
   run 3 example_lib list_crawler new_state =
     (Pending,
      \<lparr>currentDepth = 1, scannedHosts = [''http://a.test/api''], scannedResourceInfo = [],
       fetched = [''http://a.test/list'', ''http://a.test/api'']\<rparr>)"
  by code_simp

section \<open>Claim C9: the depth stays within \<^verbatim>\<open>maxDepth\<close>\<close>

text \<open>
  Claim C9. With \<^verbatim>\<open>maxDepth\<close> at least 0 the depth counter is between 0 and \<^verbatim>\<open>maxDepth\<close> in
  the state the crawl has reached, whatever the budget \<open>n\<close>: at the end of the crawl, and at
  each call of \<^verbatim>\<open>scanPage\<close> where a budget runs out, also in a crawl that goes on for ever.
  The counter never goes down (\<open>grows_scan\<close>), it goes up by one at most for a host
  (\<open>depth_download\<close>), and only for a host that has passed the gate (\<open>candidate_Fetch\<close>);
  \<open>depth_scan\<close> is the invariant from any state.
\<close>

theorem depth_within_maxDepth:
  assumes "0 \<le> maxDepth (CRAWLER_OPTIONS c)"
  shows "0 \<le> currentDepth (snd (run n lib c new_state)) \<and>
         currentDepth (snd (run n lib c new_state)) \<le> maxDepth (CRAWLER_OPTIONS c)"
proof -
  let ?st0 = "new_state\<lparr>fetched := [URL c]\<rparr>"
  have st0: "new_state\<lparr>fetched := fetched new_state @ [URL c]\<rparr> = ?st0" by (simp add: new_state_def)
  have lo: "0 \<le> currentDepth (snd (run n lib c new_state))"
    using run_state [of c n lib] by (auto simp: grows_def new_state_def)
  have d0: "currentDepth ?st0 \<le> maxDepth (CRAWLER_OPTIONS c)" using assms by (simp add: new_state_def)
  have hi: "currentDepth (snd (run n lib c new_state)) \<le> maxDepth (CRAWLER_OPTIONS c)"
  proof (cases "axios_get lib (URL c)")
    case Failed
    with d0 show ?thesis by (simp add: run_def fetchPageContent_def st0)
  next
    case (Response r)
    have "currentDepth (state_of (scanPage n lib c (data r) ?st0)) \<le> maxDepth (CRAWLER_OPTIONS c)"
      using d0 by (rule depth_scan)
    with Response d0 show ?thesis
      by (cases "scanPage n lib c (data r) ?st0") (simp_all add: run_def fetchPageContent_def st0)
  qed
  from lo hi show ?thesis by simp
qed

text \<open>
  Claim C9, the theorem at the crawl of the examples, with \<^verbatim>\<open>maxDepth\<close> 10.
\<close>

theorem depth_within_maxDepth_witness:
  "0 \<le> maxDepth (CRAWLER_OPTIONS (example_crawler 10 True)) \<and>
   0 \<le> currentDepth (snd (run 3 example_lib (example_crawler 10 True) new_state)) \<and>
   currentDepth (snd (run 3 example_lib (example_crawler 10 True) new_state)) \<le> 10"
proof -
  have h: "0 \<le> maxDepth (CRAWLER_OPTIONS (example_crawler 10 True))"
    by (simp add: example_crawler_def)
  from depth_within_maxDepth [OF h, of 3 example_lib] h show ?thesis
    by (simp add: example_crawler_def)
qed

section \<open>Claim C10: a request that does not succeed\<close>

text \<open>
  Claim C10. When the link loop comes to a new host and the request does not succeed, the
  loop goes on with the host pushed on \<^verbatim>\<open>scannedHosts\<close> and the depth incremented. In the
  state the loop reaches, with any budget, the host is still scanned, the depth is at
  least one more than before, the host was requested once more than before and never
  again, and no download was recorded for it. Nor does any later call request it, since
  a scanned host stays scanned (\<open>scanned_host_not_requested_again\<close>).
\<close>

theorem failed_fetch_not_rolled_back:
  assumes "candidate lib c path st = Fetch h"
      and "\<not> isSuccessResponse (axios_get lib h)"
  shows "selector_loop n lib c True (path # paths) st =
           selector_loop n lib c True paths
             (st\<lparr>scannedHosts := scannedHosts st @ [h], currentDepth := currentDepth st + 1,
                 fetched := fetched st @ [h]\<rparr>) \<and>
         h \<in> set (scannedHosts (state_of (selector_loop n lib c True (path # paths) st))) \<and>
         currentDepth st + 1 \<le> currentDepth (state_of (selector_loop n lib c True (path # paths) st)) \<and>
         count_list (fetched (state_of (selector_loop n lib c True (path # paths) st))) h =
           count_list (fetched st) h + 1 \<and>
         filter (\<lambda>d. resource d = h) (scannedResourceInfo (state_of (selector_loop n lib c True (path # paths) st))) =
           filter (\<lambda>d. resource d = h) (scannedResourceInfo st)"
proof -
  let ?st1 = "(visit h True st)\<lparr>fetched := fetched st @ [h]\<rparr>"
  let ?fin = "state_of (selector_loop n lib c True (path # paths) st)"
  have d: "download lib c h True st = (?st1, Skip)"
    using assms(2) by (rule download_unsuccessful)
  have 1: "selector_loop n lib c True (path # paths) st = selector_loop n lib c True paths ?st1"
    using assms(1) d by simp
  have "grows ?st1 ?fin"
    using selector_loop_Fetch [OF assms(1), of True n paths] d by simp
  then obtain zs rs where g:
    "scannedHosts ?fin = scannedHosts ?st1 @ zs" "fetched ?fin = fetched ?st1 @ zs"
    "scannedResourceInfo ?fin = scannedResourceInfo ?st1 @ rs"
    "set zs \<inter> set (scannedHosts ?st1) = {}" "set (map resource rs) \<subseteq> set zs"
    "currentDepth ?st1 \<le> currentDepth ?fin"
    unfolding grows_def by blast
  have hz: "h \<notin> set zs" using g(4) by (auto simp: visit_def)
  have 2: "h \<in> set (scannedHosts ?fin)" using g(1) by (simp add: visit_def)
  have 3: "currentDepth st + 1 \<le> currentDepth ?fin" using g(6) by (simp add: visit_def)
  have 4: "count_list (fetched ?fin) h = count_list (fetched st) h + 1"
    using g(2) hz by (simp add: visit_def)
  have "\<forall>d \<in> set rs. resource d \<noteq> h" using g(5) hz by auto
  then have "filter (\<lambda>d. resource d = h) rs = []" by (simp add: filter_empty_conv)
  then have 5: "filter (\<lambda>d. resource d = h) (scannedResourceInfo ?fin) =
           filter (\<lambda>d. resource d = h) (scannedResourceInfo st)"
    using g(3) by (simp add: visit_def)
  from 1 2 3 4 5 show ?thesis by (simp add: visit_def)
qed

text \<open>
  Claim C10, the theorem at the page \<^verbatim>\<open>/gone\<close>, which answers with status 404, linked twice.
\<close>

theorem failed_fetch_not_rolled_back_witness:
  "candidate example_lib (example_crawler 10 False) (Some ''/gone'') new_state = Fetch ''http://a.test/gone'' \<and>
   \<not> isSuccessResponse (axios_get example_lib ''http://a.test/gone'') \<and>
   ''http://a.test/gone'' \<in> set (scannedHosts (state_of
       (selector_loop 2 example_lib (example_crawler 10 False) True [Some ''/gone'', Some ''/gone''] new_state))) \<and>
   1 \<le> currentDepth (state_of
       (selector_loop 2 example_lib (example_crawler 10 False) True [Some ''/gone'', Some ''/gone''] new_state)) \<and>
   count_list (fetched (state_of
       (selector_loop 2 example_lib (example_crawler 10 False) True [Some ''/gone'', Some ''/gone''] new_state)))
     ''http://a.test/gone'' = 1 \<and>
   filter (\<lambda>d. resource d = ''http://a.test/gone'') (scannedResourceInfo (state_of
       (selector_loop 2 example_lib (example_crawler 10 False) True [Some ''/gone'', Some ''/gone''] new_state))) = []"
proof -
  have c: "candidate example_lib (example_crawler 10 False) (Some ''/gone'') new_state = Fetch ''http://a.test/gone''"
    by code_simp
  have f: "\<not> isSuccessResponse (axios_get example_lib ''http://a.test/gone'')"
    by code_simp
  from failed_fetch_not_rolled_back [OF c f, of 2 "[Some ''/gone'']", THEN conjunct2] c f show ?thesis
    by (simp add: new_state_def del: selector_loop.simps)
qed

end
